theory Spec2Isabelle
  imports Main "HOL-Library.Word"
begin

section \<open>The libraries the ledger calls\<close>

text \<open>
  \<^verbatim>\<open>blockchain.js\<close> calls two libraries that are not part of the repository:
  \<^verbatim>\<open>crypto-js/sha256\<close> and \<^verbatim>\<open>elliptic\<close> (curve secp256k1). Every definition below
  takes them as a parameter \<open>c\<close>, so every theorem holds for whatever these four
  functions compute:
  \<^item> \<open>SHA256 c s\<close>: the 256-bit digest \<^verbatim>\<open>SHA256(s)\<close>;
  \<^item> \<open>getPublic c k\<close>: \<^verbatim>\<open>k.getPublic('hex')\<close> of a key pair \<open>k\<close>;
  \<^item> \<open>sign c k h\<close>: \<^verbatim>\<open>k.sign(h, 'base64').toDER('hex')\<close>;
  \<^item> \<open>verify c a h s\<close>: \<^verbatim>\<open>ec.keyFromPublic(a, 'hex').verify(h, s)\<close>.
  The library calls are total here: an exception raised inside \<^verbatim>\<open>elliptic\<close>
  itself (a malformed key or signature encoding) is outside the model.
\<close>

record 'k crypto =
  SHA256 :: "string \<Rightarrow> 256 word"
  getPublic :: "'k \<Rightarrow> string"
  sign :: "'k \<Rightarrow> string \<Rightarrow> string"
  verify :: "string \<Rightarrow> string \<Rightarrow> string \<Rightarrow> bool"

section \<open>JavaScript values as strings\<close>

text \<open>
  Timestamps (values of \<^verbatim>\<open>Date.now()\<close>) and nonces are natural numbers, printed in
  plain decimal, which is what JavaScript does for every integer below \<open>10^21\<close>.
\<close>

definition digit_char :: "nat \<Rightarrow> char" where
  "digit_char d = ''0123456789abcdef'' ! d"

fun show_nat :: "nat \<Rightarrow> string" where
  "show_nat n = (if n < 10 then [digit_char n] else show_nat (n div 10) @ [digit_char (n mod 10)])"

declare show_nat.simps [simp del]

definition show_int :: "int \<Rightarrow> string" where
  "show_int i = (if i < 0 then CHR ''-'' # show_nat (nat (- i)) else show_nat (nat i))"

text \<open>
  An amount is a JavaScript number. The model holds the integers of a signed 54-bit word,
  from \<open>-2^53\<close> to \<open>2^53 - 1\<close> (a double holds each of them exactly and JavaScript prints
  them in plain decimal), and the three values that are not finite. A fraction, a
  larger number and the negative zero (which is printed as \<^verbatim>\<open>0\<close>) are not values of the
  model. The type parameter is for balances:
  a balance is a sum of amounts, its finite values are the exact integer sums, which the
  doubles of the code follow as long as the partial sums stay within \<open>2^53\<close>.
\<close>

datatype 'a number = Fin 'a | Infinity | MinusInfinity | NotANumber

type_synonym amount = "54 word number"

text \<open>
  \<^verbatim>\<open>'' + x\<close> prints the number \<open>x\<close> by name when it is not finite;
  \<^verbatim>\<open>JSON.stringify(x)\<close> prints every number that is not finite as \<^verbatim>\<open>null\<close>.
\<close>

fun Number_toString :: "amount \<Rightarrow> string" where
  "Number_toString (Fin w) = show_int (sint w)"
| "Number_toString Infinity = ''Infinity''"
| "Number_toString MinusInfinity = ''-Infinity''"
| "Number_toString NotANumber = ''NaN''"

fun JSON_number :: "amount \<Rightarrow> string" where
  "JSON_number (Fin w) = show_int (sint w)"
| "JSON_number Infinity = ''null''"
| "JSON_number MinusInfinity = ''null''"
| "JSON_number NotANumber = ''null''"

text \<open>Addition and subtraction of numbers, as \<^verbatim>\<open>+=\<close> and \<^verbatim>\<open>-=\<close> do them.\<close>

fun js_add :: "int number \<Rightarrow> int number \<Rightarrow> int number" where
  "js_add NotANumber y = NotANumber"
| "js_add x NotANumber = NotANumber"
| "js_add Infinity MinusInfinity = NotANumber"
| "js_add MinusInfinity Infinity = NotANumber"
| "js_add Infinity y = Infinity"
| "js_add x Infinity = Infinity"
| "js_add MinusInfinity y = MinusInfinity"
| "js_add x MinusInfinity = MinusInfinity"
| "js_add (Fin a) (Fin b) = Fin (a + b)"

fun js_neg :: "int number \<Rightarrow> int number" where
  "js_neg (Fin a) = Fin (- a)"
| "js_neg Infinity = MinusInfinity"
| "js_neg MinusInfinity = Infinity"
| "js_neg NotANumber = NotANumber"

definition js_sub :: "int number \<Rightarrow> int number \<Rightarrow> int number" where
  "js_sub x y = js_add x (js_neg y)"

fun value_of :: "amount \<Rightarrow> int number" where
  "value_of (Fin w) = Fin (sint w)"
| "value_of Infinity = Infinity"
| "value_of MinusInfinity = MinusInfinity"
| "value_of NotANumber = NotANumber"

text \<open>
  \<^verbatim>\<open>SHA256(...).toString()\<close> prints the digest as 64 lower-case hexadecimal digits,
  most significant first.
\<close>

fun hex_digits :: "nat \<Rightarrow> nat \<Rightarrow> string" where
  "hex_digits 0 n = []"
| "hex_digits (Suc k) n = hex_digits k (n div 16) @ [digit_char (n mod 16)]"

definition toString :: "256 word \<Rightarrow> string" where
  "toString w = hex_digits 64 (unat w)"

text \<open>
  \<^verbatim>\<open>JSON.stringify\<close> of a string: quotes around it, the quote and the backslash
  escaped, control characters as their short escape or as \<^verbatim>\<open>\u00XX\<close>.
\<close>

definition json_char :: "char \<Rightarrow> string" where
  "json_char ch =
     (if ch = CHR 0x22 then [CHR 0x5C, CHR 0x22]
      else if ch = CHR 0x5C then [CHR 0x5C, CHR 0x5C]
      else if ch = CHR 0x08 then [CHR 0x5C, CHR ''b'']
      else if ch = CHR 0x09 then [CHR 0x5C, CHR ''t'']
      else if ch = CHR 0x0A then [CHR 0x5C, CHR ''n'']
      else if ch = CHR 0x0C then [CHR 0x5C, CHR ''f'']
      else if ch = CHR 0x0D then [CHR 0x5C, CHR ''r'']
      else if (of_char ch :: nat) < 32
        then [CHR 0x5C, CHR ''u'', CHR ''0'', CHR ''0'',
              digit_char (of_char ch div 16), digit_char (of_char ch mod 16)]
      else [ch])"

definition json_string :: "string \<Rightarrow> string" where
  "json_string s = CHR 0x22 # concat (map json_char s) @ [CHR 0x22]"

section \<open>Transactions\<close>

text \<open>
  \<^verbatim>\<open>fromAddress\<close> is a string or \<^verbatim>\<open>null\<close> (\<open>None\<close>), \<^verbatim>\<open>toAddress\<close> a string;
  \<^verbatim>\<open>signature\<close> is \<^verbatim>\<open>undefined\<close> (\<open>None\<close>) until \<^verbatim>\<open>signTransaction\<close> assigns it.
\<close>

record Transactions =
  fromAddress :: "string option"
  toAddress :: string
  amount :: amount
  signature :: "string option"

datatype error =
    OtherWallet         \<comment> \<open>\<^verbatim>\<open>You cannot sign transactions for other wallets!\<close>\<close>
  | NoSignature         \<comment> \<open>\<^verbatim>\<open>No signature in this transaction\<close>\<close>
  | MissingAddress      \<comment> \<open>\<^verbatim>\<open>Transaction must include from and to address\<close>\<close>
  | InvalidTransaction  \<comment> \<open>\<^verbatim>\<open>Cannot add an invalid transaction to the chain\<close>\<close>
  | TypeError           \<comment> \<open>calling a method that the value does not have\<close>

definition new_Transactions :: "string option \<Rightarrow> string \<Rightarrow> amount \<Rightarrow> Transactions" where
  "new_Transactions from to amt =
     \<lparr>fromAddress = from, toAddress = to, amount = amt, signature = None\<rparr>"

definition js_address :: "string option \<Rightarrow> string" where
  "js_address a = (case a of None \<Rightarrow> ''null'' | Some s \<Rightarrow> s)"

definition tx_calculateHash :: "'k crypto \<Rightarrow> Transactions \<Rightarrow> string" where
  "tx_calculateHash c tx =
     toString (SHA256 c (js_address (fromAddress tx) @ toAddress tx @ Number_toString (amount tx)))"

text \<open>
  A method returns the outcome (\<open>None\<close>, or the error thrown) and the object as the
  call leaves it.
\<close>

definition signTransaction ::
  "'k crypto \<Rightarrow> 'k \<Rightarrow> Transactions \<Rightarrow> error option \<times> Transactions" where
  "signTransaction c signingKey tx =
     (if Some (getPublic c signingKey) \<noteq> fromAddress tx then (Some OtherWallet, tx)
      else
        let hashTx = tx_calculateHash c tx;
            sig = sign c signingKey hashTx
        in (None, tx\<lparr>signature := Some sig\<rparr>))"

definition isValid :: "'k crypto \<Rightarrow> Transactions \<Rightarrow> error + bool" where
  "isValid c tx =
     (case fromAddress tx of
        None \<Rightarrow> Inr True
      | Some a \<Rightarrow>
          (case signature tx of
             None \<Rightarrow> Inl NoSignature
           | Some s \<Rightarrow>
               if length s = 0 then Inl NoSignature
               else Inr (verify c a (tx_calculateHash c tx) s)))"

section \<open>Block\<close>

text \<open>
  The constructor is called with a list of transactions by \<^verbatim>\<open>minePendingTransaction\<close>
  and with the string \<^verbatim>\<open>"02/10/2018"\<close> by \<^verbatim>\<open>createGenesisBlock\<close>.
\<close>

datatype txs = Str string | Arr "Transactions list"

text \<open>
  \<^verbatim>\<open>nonce\<close> is \<^verbatim>\<open>undefined\<close> while the constructor has not assigned it;
  \<^verbatim>\<open>undefined++\<close> is \<^verbatim>\<open>NaN\<close>.
\<close>

datatype jsnum = Undefined | NaN | Num nat

fun incr :: "jsnum \<Rightarrow> jsnum" where
  "incr (Num n) = Num (n + 1)"
| "incr _ = NaN"

fun show_jsnum :: "jsnum \<Rightarrow> string" where
  "show_jsnum Undefined = ''undefined''"
| "show_jsnum NaN = ''NaN''"
| "show_jsnum (Num n) = show_nat n"

record block =
  timestamp :: nat
  transactions :: txs
  previousHash :: string
  hash :: string
  nonce :: jsnum

fun join_comma :: "string list \<Rightarrow> string" where
  "join_comma [] = []"
| "join_comma [x] = x"
| "join_comma (x # y # ys) = x @ '','' @ join_comma (y # ys)"

definition stringify_tx :: "Transactions \<Rightarrow> string" where
  "stringify_tx tx =
     CHR ''{'' # json_string ''fromAddress'' @ '':''
       @ (case fromAddress tx of None \<Rightarrow> ''null'' | Some a \<Rightarrow> json_string a)
       @ '','' @ json_string ''toAddress'' @ '':'' @ json_string (toAddress tx)
       @ '','' @ json_string ''amount'' @ '':'' @ JSON_number (amount tx)
       @ (case signature tx of None \<Rightarrow> []
          | Some s \<Rightarrow> '','' @ json_string ''signature'' @ '':'' @ json_string s)
       @ ''}''"

fun JSON_stringify :: "txs \<Rightarrow> string" where
  "JSON_stringify (Str s) = json_string s"
| "JSON_stringify (Arr ts) = ''['' @ join_comma (map stringify_tx ts) @ '']''"

text \<open>
  \<^verbatim>\<open>this.index\<close> is never assigned, so the hashed string starts with
  \<^verbatim>\<open>undefined\<close>.
\<close>

definition preimage :: "block \<Rightarrow> string" where
  "preimage b =
     ''undefined'' @ previousHash b @ show_nat (timestamp b)
       @ JSON_stringify (transactions b) @ show_jsnum (nonce b)"

definition calculateHash :: "'k crypto \<Rightarrow> block \<Rightarrow> string" where
  "calculateHash c b = toString (SHA256 c (preimage b))"

text \<open>
  The constructor assigns \<^verbatim>\<open>hash\<close> before \<^verbatim>\<open>nonce\<close>: \<^verbatim>\<open>calculateHash\<close> runs on the
  object whose \<^verbatim>\<open>nonce\<close> is still \<^verbatim>\<open>undefined\<close>.
\<close>

definition new_Block :: "'k crypto \<Rightarrow> nat \<Rightarrow> txs \<Rightarrow> string \<Rightarrow> block" where
  "new_Block c ts trs prev =
     (let b0 = \<lparr>timestamp = ts, transactions = trs, previousHash = prev,
                hash = [], nonce = Undefined\<rparr>;
          b1 = b0\<lparr>hash := calculateHash c b0\<rparr>
      in b1\<lparr>nonce := Num 0\<rparr>)"

text \<open>One turn of the loop of \<^verbatim>\<open>mineBlock\<close>: \<^verbatim>\<open>this.nonce++; this.hash = this.calculateHash()\<close>.\<close>

definition next_attempt :: "'k crypto \<Rightarrow> block \<Rightarrow> block" where
  "next_attempt c b =
     (let b1 = b\<lparr>nonce := incr (nonce b)\<rparr> in b1\<lparr>hash := calculateHash c b1\<rparr>)"

text \<open>
  The loop of \<^verbatim>\<open>mineBlock\<close> has no bound: \<open>None\<close> is the run that never returns.
  \<^verbatim>\<open>hash.substring(0, d)\<close> is \<open>take d\<close>, \<^verbatim>\<open>Array(d + 1).join('0')\<close> is \<open>d\<close> zeros.
\<close>

partial_function (option) mineBlock :: "'k crypto \<Rightarrow> nat \<Rightarrow> block \<Rightarrow> block option" where
  "mineBlock c d b =
     (if take d (hash b) \<noteq> replicate d CHR ''0''
      then mineBlock c d (next_attempt c b)
      else Some b)"

declare mineBlock.simps [code]

fun allValid :: "'k crypto \<Rightarrow> Transactions list \<Rightarrow> error + bool" where
  "allValid c [] = Inr True"
| "allValid c (tx # rest) =
     (case isValid c tx of
        Inl e \<Rightarrow> Inl e
      | Inr v \<Rightarrow> if \<not> v then Inr False else allValid c rest)"

definition hasValidTransactions :: "'k crypto \<Rightarrow> block \<Rightarrow> error + bool" where
  "hasValidTransactions c b =
     (case transactions b of
        Arr ts \<Rightarrow> allValid c ts
      | Str s \<Rightarrow> if s = [] then Inr True else Inl TypeError)"

section \<open>Blockchain\<close>

record blockchain =
  chain :: "block list"
  difficulty :: nat
  pendingTransactions :: "Transactions list"
  mimingReward :: amount

text \<open>
  \<^verbatim>\<open>new Block(0, "02/10/2018", "GenesisBlock", "0")\<close>: the constructor has three
  parameters, the fourth argument is dropped.
\<close>

definition createGenesisBlock :: "'k crypto \<Rightarrow> block" where
  "createGenesisBlock c = new_Block c 0 (Str ''02/10/2018'') ''GenesisBlock''"

definition new_Blockchain :: "'k crypto \<Rightarrow> blockchain" where
  "new_Blockchain c =
     \<lparr>chain = [createGenesisBlock c], difficulty = 2, pendingTransactions = [],
      mimingReward = Fin 100\<rparr>"

text \<open>\<^verbatim>\<open>this.chain[this.chain.length - 1]\<close> is \<^verbatim>\<open>undefined\<close> on an empty array.\<close>

definition getLatestBlock :: "blockchain \<Rightarrow> block option" where
  "getLatestBlock L = (if chain L = [] then None else Some (chain L ! (length (chain L) - 1)))"

text \<open>
  \<open>now\<close> is the value of \<^verbatim>\<open>Date.now()\<close>. The block is built with two arguments, so
  its \<^verbatim>\<open>previousHash\<close> is the default \<^verbatim>\<open>''\<close>. The block keeps the array that was
  the pool, and the ledger's pool becomes a new array: a later \<^verbatim>\<open>push\<close> to the pool does
  not reach the block, so lists by value model both.
\<close>

definition minePendingTransaction ::
  "'k crypto \<Rightarrow> nat \<Rightarrow> string \<Rightarrow> blockchain \<Rightarrow> blockchain option" where
  "minePendingTransaction c now miningRewardAddress L =
     (case mineBlock c (difficulty L) (new_Block c now (Arr (pendingTransactions L)) []) of
        None \<Rightarrow> None
      | Some b \<Rightarrow>
          Some (L\<lparr>chain := chain L @ [b],
                  pendingTransactions :=
                    [new_Transactions None miningRewardAddress (mimingReward L)]\<rparr>))"

text \<open>\<^verbatim>\<open>!x\<close> holds of \<^verbatim>\<open>null\<close> and of the empty string.\<close>

definition falsy :: "string option \<Rightarrow> bool" where
  "falsy a = (case a of None \<Rightarrow> True | Some s \<Rightarrow> s = [])"

definition addTransaction ::
  "'k crypto \<Rightarrow> Transactions \<Rightarrow> blockchain \<Rightarrow> error option \<times> blockchain" where
  "addTransaction c tx L =
     (if falsy (fromAddress tx) \<or> falsy (Some (toAddress tx)) then (Some MissingAddress, L)
      else
        case isValid c tx of
          Inl e \<Rightarrow> (Some e, L)
        | Inr v \<Rightarrow>
            if \<not> v then (Some InvalidTransaction, L)
            else (None, L\<lparr>pendingTransactions := pendingTransactions L @ [tx]\<rparr>))"

text \<open>
  Iterating over the string of the genesis block yields its characters, which have
  neither a \<^verbatim>\<open>fromAddress\<close> nor a \<^verbatim>\<open>toAddress\<close>: they leave the balance as it is.
\<close>

definition balance_step :: "string \<Rightarrow> int number \<Rightarrow> Transactions \<Rightarrow> int number" where
  "balance_step address balance tr =
     (let b1 = (if fromAddress tr = Some address then js_sub balance (value_of (amount tr))
                else balance)
      in if toAddress tr = address then js_add b1 (value_of (amount tr)) else b1)"

definition balance_block :: "string \<Rightarrow> int number \<Rightarrow> block \<Rightarrow> int number" where
  "balance_block address balance b =
     (case transactions b of
        Str s \<Rightarrow> balance
      | Arr ts \<Rightarrow> foldl (balance_step address) balance ts)"

definition getAddressOfBalance :: "blockchain \<Rightarrow> string \<Rightarrow> int number" where
  "getAddressOfBalance L address = foldl (balance_block address) (Fin 0) (chain L)"

function isChainValid_loop :: "'k crypto \<Rightarrow> block list \<Rightarrow> nat \<Rightarrow> error + bool" where
  "isChainValid_loop c ch i =
     (if i < length ch then
        (let currentBlock = ch ! i;
             previousBlock = ch ! (i - 1)
         in case hasValidTransactions c currentBlock of
              Inl e \<Rightarrow> Inl e
            | Inr v \<Rightarrow>
                if \<not> v then Inr False
                else if hash currentBlock \<noteq> calculateHash c currentBlock then Inr False
                else if previousHash currentBlock \<noteq> hash previousBlock then Inr False
                else isChainValid_loop c ch (i + 1))
      else Inr True)"
  by pat_completeness auto
termination
  by (relation "measure (\<lambda>(c, ch, i). length ch - i)") auto

declare isChainValid_loop.simps [simp del]

definition isChainValid :: "'k crypto \<Rightarrow> blockchain \<Rightarrow> error + bool" where
  "isChainValid c L = isChainValid_loop c (chain L) 1"

section \<open>The driver script\<close>

text \<open>
  \<^verbatim>\<open>main.js\<close> up to the call of the miner: the wallet address is the public key of
  \<^verbatim>\<open>myKey\<close>, \<^verbatim>\<open>tx1\<close> sends 10 to \<open>toAddr\<close> (the script's
  \<^verbatim>\<open>'public key goes here'\<close>), is signed with \<^verbatim>\<open>myKey\<close>, added, and mined with the
  wallet as the reward address. An exception ends the script (\<open>Inl\<close>); \<open>None\<close> is the
  script that never leaves the miner.
\<close>

definition main_tx1 :: "'k crypto \<Rightarrow> 'k \<Rightarrow> string \<Rightarrow> error option \<times> Transactions" where
  "main_tx1 c myKey toAddr =
     (let myWalletAddress = getPublic c myKey
      in signTransaction c myKey (new_Transactions (Some myWalletAddress) toAddr (Fin 10)))"

definition main_mined :: "'k crypto \<Rightarrow> 'k \<Rightarrow> string \<Rightarrow> nat \<Rightarrow> (error + blockchain) option" where
  "main_mined c myKey toAddr now =
     (let myWalletAddress = getPublic c myKey;
          savjeeCoin = new_Blockchain c
      in case main_tx1 c myKey toAddr of
           (Some e, tx1) \<Rightarrow> Some (Inl e)
         | (None, tx1) \<Rightarrow>
             (case addTransaction c tx1 savjeeCoin of
                (Some e, L1) \<Rightarrow> Some (Inl e)
              | (None, L1) \<Rightarrow>
                  (case minePendingTransaction c now myWalletAddress L1 of
                     None \<Rightarrow> None
                   | Some L2 \<Rightarrow> Some (Inr L2))))"







section \<open>Notions used to state the properties\<close>

text \<open>The ledgers that calls of \<^verbatim>\<open>addTransaction\<close> and \<^verbatim>\<open>minePendingTransaction\<close> build
  from a new \<^verbatim>\<open>Blockchain\<close>; a call of \<^verbatim>\<open>addTransaction\<close> that throws is not a step.\<close>

inductive built :: "'k crypto \<Rightarrow> blockchain \<Rightarrow> bool" for c :: "'k crypto" where
  fresh: "built c (new_Blockchain c)"
| add: "built c L \<Longrightarrow> addTransaction c tx L = (None, L') \<Longrightarrow> built c L'"
| mine: "built c L \<Longrightarrow> minePendingTransaction c now a L = Some L' \<Longrightarrow> built c L'"

text \<open>The hashed string of a block without its nonce.\<close>

definition content :: "nat \<Rightarrow> txs \<Rightarrow> string \<Rightarrow> string" where
  "content ts trs prev = ''undefined'' @ prev @ show_nat ts @ JSON_stringify trs"



text \<open>
  The string whose digest is in the \<^verbatim>\<open>hash\<close> field of a block that comes from the
  constructor and the miner's loop: at nonce 0 the constructor has hashed the content with
  the nonce still \<^verbatim>\<open>undefined\<close>, after a turn of the loop it is the hashed string of
  the block as it stands.
\<close>

definition stored_string :: "block \<Rightarrow> string" where
  "stored_string b =
     (if nonce b = Num 0
      then content (timestamp b) (transactions b) (previousHash b) @ ''undefined''
      else preimage b)"

text \<open>
  The three checks of one turn of the loop of \<^verbatim>\<open>isChainValid\<close>, all passed; the loop
  reaches index \<open>i\<close> when the blocks at \<open>1, \<dots>, i - 1\<close> pass them.
\<close>

definition block_passes :: "'k crypto \<Rightarrow> block list \<Rightarrow> nat \<Rightarrow> bool" where
  "block_passes c ch k =
     (hasValidTransactions c (ch ! k) = Inr True
      \<and> hash (ch ! k) = calculateHash c (ch ! k)
      \<and> previousHash (ch ! k) = hash (ch ! (k - 1)))"

definition reaches :: "'k crypto \<Rightarrow> block list \<Rightarrow> nat \<Rightarrow> bool" where
  "reaches c ch i = (0 < i \<and> i < length ch \<and> list_all (block_passes c ch) [1..<i])"

text \<open>What holds of every ledger that is \<open>built\<close>.\<close>

definition built_inv :: "'k crypto \<Rightarrow> blockchain \<Rightarrow> bool" where
  "built_inv c L =
     (\<exists>rest. chain L = createGenesisBlock c # rest
        \<and> (\<forall>b \<in> set rest. previousHash b = [] \<and> hasValidTransactions c b = Inr True)
        \<and> (\<forall>t \<in> set (pendingTransactions L). isValid c t = Inr True))"

section \<open>A small instance of the libraries\<close>

text \<open>
  An instance of the four library functions on which the definitions can be run: the
  digest of a string is its length, with the top four bits set when the string ends in
  \<^verbatim>\<open>d\<close> or \<^verbatim>\<open>1\<close>, so that the miner's loop takes two turns; the key \<open>k\<close> has the
  public key \<open>04k\<close>, and the only signature that verifies is the one \<open>sign\<close> makes.
\<close>

definition hard :: "string \<Rightarrow> bool" where
  "hard s = (s \<noteq> [] \<and> (last s = CHR ''d'' \<or> last s = CHR ''1''))"

definition toy_digest :: "string \<Rightarrow> nat" where
  "toy_digest s = (if hard s then 15 * 16 ^ 63 else 0) + length s mod 256"

definition toy_crypto :: "string crypto" where
  "toy_crypto =
     \<lparr>SHA256 = (\<lambda>s. of_nat (toy_digest s)),
      getPublic = (\<lambda>k. ''04'' @ k),
      sign = (\<lambda>k h. ''30'' @ k @ h),
      verify = (\<lambda>a h s. s = ''30'' @ drop 2 a @ h)\<rparr>"

text \<open>
  Sample values for the small instance: a transaction that was never signed, the signed
  transaction of the script with its amount changed afterwards, and a ledger of the
  genesis block and one more block.
\<close>

definition unsigned_tx :: Transactions where
  "unsigned_tx = new_Transactions (Some ''04aa'') ''04bb'' (Fin 5)"

definition tampered_tx :: Transactions where
  "tampered_tx = (snd (main_tx1 toy_crypto ''aa'' ''04bb''))\<lparr>amount := Fin 1\<rparr>"

definition two_blocks :: "block \<Rightarrow> blockchain" where
  "two_blocks b = (new_Blockchain toy_crypto)\<lparr>chain := [createGenesisBlock toy_crypto, b]\<rparr>"



section \<open>Printing numbers and digests\<close>

lemma length_hex_digits: "length (hex_digits k n) = k"
  by (induction k arbitrary: n) simp_all

lemma length_toString: "length (toString w) = 64"
  by (simp add: toString_def length_hex_digits)

lemma toString_not_Nil: "toString w \<noteq> []"
  using length_toString [of w] by auto

lemma calculateHash_not_Nil: "calculateHash c b \<noteq> []"
  by (simp add: calculateHash_def toString_not_Nil)

lemma hex_digits_numeral:
  "hex_digits (numeral k) n = hex_digits (pred_numeral k) (n div 16) @ [digit_char (n mod 16)]"
proof -
  have "numeral k = Suc (pred_numeral k)" by (rule numeral_eq_Suc)
  then show ?thesis by (simp only: hex_digits.simps)
qed

lemma hex_digits_zero: "hex_digits k 0 = replicate k CHR ''0''"
  by (induction k) (simp_all add: digit_char_def replicate_append_same)

lemma hex_digits_add: "hex_digits (j + k) n = hex_digits j (n div 16 ^ k) @ hex_digits k n"
proof (induction k arbitrary: n)
  case 0
  then show ?case by simp
next
  case (Suc k)
  have "n div 16 div 16 ^ k = n div 16 ^ Suc k"
    by (simp add: div_mult2_eq)
  with Suc [of "n div 16"] show ?case by simp
qed

lemma hex_digits_top:
  "d < 16 \<Longrightarrow> n < 16 ^ k \<Longrightarrow> hex_digits (Suc k) (d * 16 ^ k + n) = digit_char d # hex_digits k n"
proof (induction k arbitrary: n)
  case 0
  then show ?case by simp
next
  case (Suc k)
  have e: "d * 16 ^ Suc k + n = 16 * (d * 16 ^ k) + n" by simp
  have d: "(d * 16 ^ Suc k + n) div 16 = d * 16 ^ k + n div 16"
    unfolding e by simp
  have m: "(d * 16 ^ Suc k + n) mod 16 = n mod 16"
    unfolding e by simp
  from Suc.prems have "n div 16 < 16 ^ k"
    by (simp add: less_mult_imp_div_less mult.commute)
  from Suc.IH [OF Suc.prems(1) this] show ?case
    by (simp add: d m del: power_Suc)
qed

lemma show_nat_digit: "n < 10 \<Longrightarrow> show_nat n = [digit_char n]"
  by (subst show_nat.simps) simp

lemma digit_char_inj:
  assumes "d < 16" and "e < 16" and "digit_char d = digit_char e"
  shows "d = e"
proof -
  have "distinct ''0123456789abcdef''" by simp
  moreover have "length ''0123456789abcdef'' = 16" by simp
  ultimately show ?thesis
    using assms unfolding digit_char_def by (metis nth_eq_iff_index_eq)
qed

lemma digit_char_not_minus: "d < 10 \<Longrightarrow> digit_char d \<noteq> CHR ''-''"
proof -
  assume "d < 10"
  then have "d \<in> {0, 1, 2, 3, 4, 5, 6, 7, 8, 9}" by auto
  then show ?thesis by (auto simp: digit_char_def)
qed

lemma show_nat_not_Nil: "show_nat n \<noteq> []"
  by (subst show_nat.simps) simp

lemma hd_show_nat: "hd (show_nat n) \<noteq> CHR ''-''"
proof (induction n rule: show_nat.induct)
  case (1 n)
  show ?case
  proof (cases "n < 10")
    case True
    then show ?thesis by (subst show_nat.simps) (simp add: digit_char_not_minus)
  next
    case False
    with 1 show ?thesis by (subst show_nat.simps) (simp add: show_nat_not_Nil)
  qed
qed

lemma show_nat_inj: "show_nat n = show_nat m \<Longrightarrow> n = m"
proof (induction n arbitrary: m rule: show_nat.induct)
  case (1 n)
  show ?case
  proof (cases "n < 10")
    case n: True
    show ?thesis
    proof (cases "m < 10")
      case True
      with n 1(2) have "digit_char n = digit_char m"
        by (simp add: show_nat.simps [of n] show_nat.simps [of m])
      with n True show ?thesis by (intro digit_char_inj) simp_all
    next
      case False
      with n 1(2) have "show_nat (m div 10) = []"
        by (simp add: show_nat.simps [of n] show_nat.simps [of m])
      then show ?thesis by (simp add: show_nat_not_Nil)
    qed
  next
    case n: False
    show ?thesis
    proof (cases "m < 10")
      case True
      with n 1(2) have "show_nat (n div 10) = []"
        by (simp add: show_nat.simps [of n] show_nat.simps [of m])
      then show ?thesis by (simp add: show_nat_not_Nil)
    next
      case False
      with n 1(2) have e: "show_nat (n div 10) = show_nat (m div 10)"
        "digit_char (n mod 10) = digit_char (m mod 10)"
        by (simp_all add: show_nat.simps [of n] show_nat.simps [of m])
      from 1(1) [OF n e(1)] have "n div 10 = m div 10" .
      moreover from e(2) have "n mod 10 = m mod 10"
        by (intro digit_char_inj) simp_all
      ultimately show ?thesis by (metis div_mult_mod_eq)
    qed
  qed
qed

lemma show_int_inj: "show_int i = show_int j \<Longrightarrow> i = j"
proof -
  assume e: "show_int i = show_int j"
  have neg: "CHR ''-'' # xs \<noteq> show_nat n" for xs n
    using hd_show_nat [of n] by (metis list.sel(1))
  show ?thesis
  proof (cases "i < 0")
    case i: True
    show ?thesis
    proof (cases "j < 0")
      case True
      with i e have "nat (- i) = nat (- j)" by (simp add: show_int_def show_nat_inj)
      with i True show ?thesis by simp
    next
      case False
      with i e neg show ?thesis by (simp add: show_int_def)
    qed
  next
    case i: False
    show ?thesis
    proof (cases "j < 0")
      case True
      with i e neg [of "show_nat (nat (- j))" "nat i"] show ?thesis by (simp add: show_int_def)
    next
      case False
      with i e have "nat i = nat j" by (simp add: show_int_def show_nat_inj)
      with i False show ?thesis by simp
    qed
  qed
qed

lemma hex_digits_inj:
  "n < 16 ^ k \<Longrightarrow> m < 16 ^ k \<Longrightarrow> hex_digits k n = hex_digits k m \<Longrightarrow> n = m"
proof (induction k arbitrary: n m)
  case 0
  then show ?case by simp
next
  case (Suc k)
  from Suc.prems(1,2) have "n div 16 < 16 ^ k" "m div 16 < 16 ^ k"
    by (simp_all add: less_mult_imp_div_less mult.commute)
  moreover from Suc.prems(3) have e: "hex_digits k (n div 16) = hex_digits k (m div 16)"
    "digit_char (n mod 16) = digit_char (m mod 16)"
    by simp_all
  ultimately have "n div 16 = m div 16" by (intro Suc.IH)
  moreover from e(2) have "n mod 16 = m mod 16"
    by (intro digit_char_inj) simp_all
  ultimately show ?case by (metis div_mult_mod_eq)
qed

lemma toString_inj: "toString v = toString w \<Longrightarrow> v = w"
proof -
  assume e: "toString v = toString w"
  have "unat x < 16 ^ 64" for x :: "256 word"
    using unsigned_less [of x, where ?'a = nat] by simp
  from hex_digits_inj [OF this this] e have "unat v = unat w"
    by (simp add: toString_def)
  then show ?thesis by (rule word_unat_eq_iff [THEN iffD2])
qed

section \<open>The block constructor and the miner's loop\<close>

text \<open>
  The loop returns when some turn meets the target (\<open>mineBlock_returns\<close>), and what it
  returns is the block after some number of turns, meeting the target
  (\<open>mineBlock_Some\<close>).
\<close>

lemma new_Block_fields:
  "timestamp (new_Block c ts trs prev) = ts"
  "transactions (new_Block c ts trs prev) = trs"
  "previousHash (new_Block c ts trs prev) = prev"
  "nonce (new_Block c ts trs prev) = Num 0"
  by (simp_all add: new_Block_def Let_def)

lemma hash_new_Block:
  "hash (new_Block c ts trs prev) = toString (SHA256 c (content ts trs prev @ ''undefined''))"
  by (simp add: new_Block_def Let_def calculateHash_def preimage_def content_def)

lemma hash_new_Block_not_Nil: "hash (new_Block c ts trs prev) \<noteq> []"
  by (simp add: new_Block_def Let_def calculateHash_not_Nil)

lemma next_attempt_fields:
  "timestamp (next_attempt c b) = timestamp b"
  "transactions (next_attempt c b) = transactions b"
  "previousHash (next_attempt c b) = previousHash b"
  by (simp_all add: next_attempt_def Let_def)

lemma next_attempt_nonce: "nonce (next_attempt c b) = incr (nonce b)"
  by (simp add: next_attempt_def Let_def)

lemma next_attempt_hash:
  "hash (next_attempt c b) = toString (SHA256 c
     (content (timestamp b) (transactions b) (previousHash b) @ show_jsnum (incr (nonce b))))"
  by (simp add: next_attempt_def Let_def calculateHash_def preimage_def content_def)

lemma next_attempt_hash_eq: "hash (next_attempt c b) = calculateHash c (next_attempt c b)"
  by (simp add: next_attempt_def Let_def calculateHash_def preimage_def)

lemma attempts_fields:
  "timestamp ((next_attempt c ^^ n) b) = timestamp b"
  "transactions ((next_attempt c ^^ n) b) = transactions b"
  "previousHash ((next_attempt c ^^ n) b) = previousHash b"
  by (induction n) (simp_all add: next_attempt_fields)

lemma attempts_nonce:
  "nonce b = Num k \<Longrightarrow> nonce ((next_attempt c ^^ n) b) = Num (k + n)"
  by (induction n) (simp_all add: next_attempt_nonce)

lemma attempts_stored:
  "hash ((next_attempt c ^^ m) (new_Block c ts trs prev))
     = toString (SHA256 c (stored_string ((next_attempt c ^^ m) (new_Block c ts trs prev))))"
proof (cases m)
  case 0
  then show ?thesis
    by (simp add: stored_string_def new_Block_fields hash_new_Block)
next
  case (Suc k)
  from attempts_nonce [where b = "new_Block c ts trs prev" and k = 0 and c = c and n = m] Suc
  have "nonce ((next_attempt c ^^ m) (new_Block c ts trs prev)) \<noteq> Num 0"
    by (simp add: new_Block_fields)
  then have "stored_string ((next_attempt c ^^ m) (new_Block c ts trs prev))
      = preimage ((next_attempt c ^^ m) (new_Block c ts trs prev))"
    by (simp add: stored_string_def)
  moreover from Suc have "hash ((next_attempt c ^^ m) (new_Block c ts trs prev))
      = calculateHash c ((next_attempt c ^^ m) (new_Block c ts trs prev))"
    by (simp add: next_attempt_hash_eq)
  ultimately show ?thesis by (simp add: calculateHash_def)
qed

lemma mineBlock_returns:
  "take d (hash ((next_attempt c ^^ n) b)) = replicate d CHR ''0'' \<Longrightarrow>
   \<exists>m\<le>n. mineBlock c d b = Some ((next_attempt c ^^ m) b)
        \<and> take d (hash ((next_attempt c ^^ m) b)) = replicate d CHR ''0''
        \<and> (\<forall>k<m. take d (hash ((next_attempt c ^^ k) b)) \<noteq> replicate d CHR ''0'')"
proof (induction n arbitrary: b)
  case 0
  then have "mineBlock c d b = Some b"
    by (subst mineBlock.simps) simp
  with 0 show ?case by auto
next
  case (Suc n)
  show ?case
  proof (cases "take d (hash b) = replicate d CHR ''0''")
    case True
    then have "mineBlock c d b = Some b"
      by (subst mineBlock.simps) simp
    with True show ?thesis by (intro exI [of _ 0]) simp
  next
    case False
    from Suc.prems have "take d (hash ((next_attempt c ^^ n) (next_attempt c b))) = replicate d CHR ''0''"
      by (simp add: funpow_swap1)
    from Suc.IH [OF this] obtain m where m: "m \<le> n"
      "mineBlock c d (next_attempt c b) = Some ((next_attempt c ^^ m) (next_attempt c b))"
      "take d (hash ((next_attempt c ^^ m) (next_attempt c b))) = replicate d CHR ''0''"
      "\<forall>k<m. take d (hash ((next_attempt c ^^ k) (next_attempt c b))) \<noteq> replicate d CHR ''0''"
      by blast
    from False have "mineBlock c d b = mineBlock c d (next_attempt c b)"
      by (subst mineBlock.simps) simp
    moreover have "\<forall>k<Suc m. take d (hash ((next_attempt c ^^ k) b)) \<noteq> replicate d CHR ''0''"
    proof (intro allI impI)
      fix k assume "k < Suc m"
      show "take d (hash ((next_attempt c ^^ k) b)) \<noteq> replicate d CHR ''0''"
      proof (cases k)
        case 0
        with False show ?thesis by simp
      next
        case (Suc k')
        with \<open>k < Suc m\<close> m(4) show ?thesis by (simp add: funpow_swap1)
      qed
    qed
    ultimately show ?thesis using m(1,2,3)
      by (intro exI [of _ "Suc m"]) (simp add: funpow_swap1)
  qed
qed

lemma mineBlock_Some:
  assumes "mineBlock c d b = Some b'"
  shows "\<exists>m. b' = (next_attempt c ^^ m) b \<and> take d (hash b') = replicate d CHR ''0''"
proof (rule mineBlock.raw_induct
    [where P = "\<lambda>c d b b'. \<exists>m. b' = (next_attempt c ^^ m) b
                  \<and> take d (hash b') = replicate d CHR ''0''"])
  show "mineBlock c d b = Some b'" by fact
next
  fix f :: "'a crypto \<Rightarrow> nat \<Rightarrow> block \<Rightarrow> block option" and c d b b'
  assume IH: "\<And>c d b y. f c d b = Some y \<Longrightarrow>
      \<exists>m. y = (next_attempt c ^^ m) b \<and> take d (hash y) = replicate d CHR ''0''"
    and eq: "(if take d (hash b) \<noteq> replicate d CHR ''0'' then f c d (next_attempt c b)
              else Some b) = Some b'"
  show "\<exists>m. b' = (next_attempt c ^^ m) b \<and> take d (hash b') = replicate d CHR ''0''"
  proof (cases "take d (hash b) = replicate d CHR ''0''")
    case True
    with eq show ?thesis by (intro exI [of _ 0]) simp
  next
    case False
    with eq have "f c d (next_attempt c b) = Some b'" by simp
    from IH [OF this] obtain m where "b' = (next_attempt c ^^ m) (next_attempt c b)"
      "take d (hash b') = replicate d CHR ''0''" by blast
    then show ?thesis by (intro exI [of _ "Suc m"]) (simp add: funpow_swap1)
  qed
qed

lemma mineBlock_Some_fields:
  assumes "mineBlock c d b = Some b'"
  shows "timestamp b' = timestamp b" "transactions b' = transactions b"
    "previousHash b' = previousHash b" "take d (hash b') = replicate d CHR ''0''"
  using mineBlock_Some [OF assms] by (auto simp: attempts_fields)

lemma minePendingTransaction_returns:
  assumes "take (difficulty L) (hash ((next_attempt c ^^ n)
             (new_Block c now (Arr (pendingTransactions L)) []))) = replicate (difficulty L) CHR ''0''"
  shows "\<exists>m\<le>n. \<exists>b. b = (next_attempt c ^^ m) (new_Block c now (Arr (pendingTransactions L)) [])
          \<and> (\<forall>k<m. take (difficulty L) (hash ((next_attempt c ^^ k)
                 (new_Block c now (Arr (pendingTransactions L)) []))) \<noteq> replicate (difficulty L) CHR ''0'')
          \<and> minePendingTransaction c now a L
            = Some (L\<lparr>chain := chain L @ [b],
                      pendingTransactions := [new_Transactions None a (mimingReward L)]\<rparr>)
          \<and> timestamp b = now
          \<and> transactions b = Arr (pendingTransactions L)
          \<and> previousHash b = []
          \<and> nonce b = Num m
          \<and> take (difficulty L) (hash b) = replicate (difficulty L) CHR ''0''"
proof -
  from mineBlock_returns [OF assms] obtain m where le: "m \<le> n" and
    m: "mineBlock c (difficulty L) (new_Block c now (Arr (pendingTransactions L)) [])
          = Some ((next_attempt c ^^ m) (new_Block c now (Arr (pendingTransactions L)) []))"
    and least: "\<forall>k<m. take (difficulty L) (hash ((next_attempt c ^^ k)
                 (new_Block c now (Arr (pendingTransactions L)) []))) \<noteq> replicate (difficulty L) CHR ''0''"
    by blast
  let ?b = "(next_attempt c ^^ m) (new_Block c now (Arr (pendingTransactions L)) [])"
  from mineBlock_Some_fields [OF m] have f:
    "timestamp ?b = now" "transactions ?b = Arr (pendingTransactions L)" "previousHash ?b = []"
    "take (difficulty L) (hash ?b) = replicate (difficulty L) CHR ''0''"
    by (simp_all add: new_Block_fields)
  have n: "nonce ?b = Num m"
    using attempts_nonce [where b = "new_Block c now (Arr (pendingTransactions L)) []"
        and k = 0 and c = c and n = m]
    by (simp add: new_Block_fields)
  from m have r: "minePendingTransaction c now a L
      = Some (L\<lparr>chain := chain L @ [?b],
                pendingTransactions := [new_Transactions None a (mimingReward L)]\<rparr>)"
    by (simp add: minePendingTransaction_def)
  show ?thesis
    using le least r f n by (intro exI [of _ m] exI [of _ ?b] conjI) simp_all
qed

lemma minePendingTransaction_Some:
  assumes "minePendingTransaction c now a L = Some L'"
  shows "\<exists>b. L' = L\<lparr>chain := chain L @ [b],
                      pendingTransactions := [new_Transactions None a (mimingReward L)]\<rparr>
          \<and> timestamp b = now
          \<and> transactions b = Arr (pendingTransactions L)
          \<and> previousHash b = []
          \<and> take (difficulty L) (hash b) = replicate (difficulty L) CHR ''0''
          \<and> (\<exists>m. b = (next_attempt c ^^ m) (new_Block c now (Arr (pendingTransactions L)) []))"
proof -
  from assms obtain b where
    b: "mineBlock c (difficulty L) (new_Block c now (Arr (pendingTransactions L)) []) = Some b"
    and L': "L' = L\<lparr>chain := chain L @ [b],
                     pendingTransactions := [new_Transactions None a (mimingReward L)]\<rparr>"
    by (auto simp: minePendingTransaction_def split: option.splits)
  from mineBlock_Some_fields [OF b] have
    "timestamp b = now" "transactions b = Arr (pendingTransactions L)" "previousHash b = []"
    "take (difficulty L) (hash b) = replicate (difficulty L) CHR ''0''"
    by (simp_all add: new_Block_fields)
  moreover from mineBlock_Some [OF b]
  have "\<exists>m. b = (next_attempt c ^^ m) (new_Block c now (Arr (pendingTransactions L)) [])"
    by blast
  ultimately show ?thesis using L' by blast
qed

section \<open>The validation loops\<close>

lemma isValid_NoSignature:
  "isValid c t = Inl e \<longleftrightarrow>
     e = NoSignature \<and> fromAddress t \<noteq> None \<and> (signature t = None \<or> signature t = Some [])"
  by (auto simp: isValid_def split: option.splits)

lemma isValid_reward: "isValid c (new_Transactions None a r) = Inr True"
  by (simp add: isValid_def new_Transactions_def)


lemma allValid_all: "(\<And>t. t \<in> set ts \<Longrightarrow> isValid c t = Inr True) \<Longrightarrow> allValid c ts = Inr True"
  by (induction ts) simp_all

lemma allValid_first_error:
  "(\<And>p. p \<in> set pre \<Longrightarrow> isValid c p = Inr True) \<Longrightarrow> isValid c t = Inl e \<Longrightarrow>
   allValid c (pre @ t # post) = Inl e"
  by (induction pre) simp_all

lemma allValid_first_false:
  "(\<And>p. p \<in> set pre \<Longrightarrow> isValid c p = Inr True) \<Longrightarrow> isValid c t = Inr False \<Longrightarrow>
   allValid c (pre @ t # post) = Inr False"
  by (induction pre) simp_all

lemma allValid_True_iff: "allValid c ts = Inr True \<longleftrightarrow> (\<forall>t \<in> set ts. isValid c t = Inr True)"
  by (induction ts) (auto split: sum.splits)

lemma allValid_update:
  assumes "allValid c ts = Inr True" and "j < length ts" and "isValid c t' = Inr bv"
  shows "allValid c (ts[j := t']) = Inr bv"
proof -
  from assms(1) have all: "\<forall>t \<in> set ts. isValid c t = Inr True"
    by (simp add: allValid_True_iff)
  show ?thesis
  proof (cases bv)
    case True
    from all assms(3) True have "\<forall>t \<in> set (ts[j := t']). isValid c t = Inr True"
      by (auto dest!: set_update_subset_insert [THEN subsetD])
    with True show ?thesis by (simp add: allValid_True_iff)
  next
    case False
    from assms(2) have e: "ts[j := t'] = take j ts @ t' # drop (Suc j) ts"
      by (rule upd_conv_take_nth_drop)
    from all have "\<And>p. p \<in> set (take j ts) \<Longrightarrow> isValid c p = Inr True"
      by (auto dest: in_set_takeD)
    from allValid_first_false [OF this, of _ t' "drop (Suc j) ts"] assms(3) False e
    show ?thesis by simp
  qed
qed

lemma loop_unfold:
  "i < length ch \<Longrightarrow>
   isChainValid_loop c ch i =
     (case hasValidTransactions c (ch ! i) of
        Inl e \<Rightarrow> Inl e
      | Inr v \<Rightarrow>
          if \<not> v then Inr False
          else if hash (ch ! i) \<noteq> calculateHash c (ch ! i) then Inr False
          else if previousHash (ch ! i) \<noteq> hash (ch ! (i - 1)) then Inr False
          else isChainValid_loop c ch (i + 1))"
  by (subst isChainValid_loop.simps) (simp add: Let_def)

lemma loop_pass:
  "i < length ch \<Longrightarrow> block_passes c ch i \<Longrightarrow>
   isChainValid_loop c ch i = isChainValid_loop c ch (Suc i)"
  by (simp add: loop_unfold block_passes_def)

lemma loop_skip:
  "j \<le> i \<Longrightarrow> i \<le> length ch \<Longrightarrow> list_all (block_passes c ch) [j..<i] \<Longrightarrow>
   isChainValid_loop c ch j = isChainValid_loop c ch i"
proof (induction i)
  case 0
  then show ?case by simp
next
  case (Suc i)
  show ?case
  proof (cases "j = Suc i")
    case True
    then show ?thesis by simp
  next
    case False
    with Suc.prems have "j \<le> i" "i < length ch" "block_passes c ch i"
      "list_all (block_passes c ch) [j..<i]"
      by simp_all
    with Suc.IH loop_pass [of i ch c] show ?thesis by simp
  qed
qed

lemma reaches_loop: "reaches c (chain L) i \<Longrightarrow> isChainValid c L = isChainValid_loop c (chain L) i"
  unfolding isChainValid_def reaches_def
  by (rule loop_skip) simp_all



lemma second_block_unlinked:
  assumes "chain L = g # b # rest" and "hasValidTransactions c b = Inr True"
    and "previousHash b \<noteq> hash g"
  shows "isChainValid c L = Inr False"
  using assms by (simp add: isChainValid_def isChainValid_loop.simps [of c _ "Suc 0"])

lemma addTransaction_accepts:
  assumes "addTransaction c tx L = (None, L')"
  shows "L' = L\<lparr>pendingTransactions := pendingTransactions L @ [tx]\<rparr>"
    and "isValid c tx = Inr True"
    and "fromAddress tx \<noteq> None" and "fromAddress tx \<noteq> Some []" and "toAddress tx \<noteq> []"
  using assms
  by (auto simp: addTransaction_def falsy_def split: if_splits sum.splits option.splits)

section \<open>The small instance\<close>

text \<open>
  Under the small instance the hash that the constructor stores and the hash at nonce 1
  do not start with two zeros, and the hash at nonce 2 does: the miner's loop takes two
  turns on every block.
\<close>

lemma toy_fields:
  "getPublic toy_crypto k = ''04'' @ k"
  "sign toy_crypto k h = ''30'' @ k @ h"
  "verify toy_crypto a h s = (s = ''30'' @ drop 2 a @ h)"
  by (simp_all add: toy_crypto_def)

lemma toy_digest_less: "toy_digest s < 2 ^ 256"
proof -
  have "length s mod 256 < 16 ^ 63"
    by (rule less_trans [of _ 256]) simp_all
  then have "toy_digest s < 15 * 16 ^ 63 + 16 ^ 63"
    by (simp add: toy_digest_def)
  also have "(15::nat) * 16 ^ 63 + 16 ^ 63 = 2 ^ 256" by simp
  finally show ?thesis .
qed

lemma toString_toy:
  "toString (SHA256 toy_crypto s) =
     (if hard s then CHR ''f'' # hex_digits 63 (length s mod 256)
      else hex_digits 64 (length s mod 256))"
proof -
  have small: "length s mod 256 < 16 ^ 63"
    by (rule less_trans [of _ 256]) simp_all
  have "toString (SHA256 toy_crypto s) = hex_digits 64 (toy_digest s)"
    using toy_digest_less [of s] by (simp add: toString_def toy_crypto_def unat_of_nat)
  also have "\<dots> = (if hard s then hex_digits (Suc 63) (15 * 16 ^ 63 + length s mod 256)
      else hex_digits 64 (length s mod 256))"
    by (simp add: toy_digest_def)
  also have "hex_digits (Suc 63) (15 * 16 ^ 63 + length s mod 256)
      = digit_char 15 # hex_digits 63 (length s mod 256)"
    by (rule hex_digits_top) (simp_all add: small)
  finally show ?thesis by (simp add: digit_char_def)
qed

lemma take_hex_digits_small:
  assumes "n < 256"
  shows "take 2 (hex_digits 64 n) = ''00''"
proof -
  from assms have "n div 16 ^ 2 = 0" by simp
  with hex_digits_add [of 62 2 n] have "hex_digits 64 n = replicate 62 CHR ''0'' @ hex_digits 2 n"
    by (simp add: hex_digits_zero)
  moreover have "take 2 (replicate 62 CHR ''0'' @ hex_digits 2 n) = replicate 2 CHR ''0''"
    by simp
  moreover have "replicate 2 CHR ''0'' = ''00''"
    by (simp add: numeral_2_eq_2)
  ultimately show ?thesis by simp
qed

lemma toy_target: "take 2 (toString (SHA256 toy_crypto s)) = ''00'' \<longleftrightarrow> \<not> hard s"
  by (simp add: toString_toy take_hex_digits_small)

lemma toy_attempts:
  "take 2 (hash (new_Block toy_crypto now trs prev)) \<noteq> ''00''"
  "take 2 (hash (next_attempt toy_crypto (new_Block toy_crypto now trs prev))) \<noteq> ''00''"
  "take 2 (hash ((next_attempt toy_crypto ^^ 2) (new_Block toy_crypto now trs prev))) = ''00''"
proof -
  show "take 2 (hash (new_Block toy_crypto now trs prev)) \<noteq> ''00''"
    unfolding hash_new_Block toy_target by (simp add: hard_def)
  show "take 2 (hash (next_attempt toy_crypto (new_Block toy_crypto now trs prev))) \<noteq> ''00''"
    unfolding next_attempt_hash toy_target
    by (simp add: new_Block_fields hard_def show_nat_digit digit_char_def)
  have "(next_attempt toy_crypto ^^ 2) (new_Block toy_crypto now trs prev)
      = next_attempt toy_crypto (next_attempt toy_crypto (new_Block toy_crypto now trs prev))"
    by (simp add: numeral_2_eq_2)
  then show "take 2 (hash ((next_attempt toy_crypto ^^ 2) (new_Block toy_crypto now trs prev))) = ''00''"
    unfolding next_attempt_hash toy_target
    by (simp add: next_attempt_hash toy_target next_attempt_fields next_attempt_nonce
        new_Block_fields hard_def show_nat_digit digit_char_def)
qed

lemma toy_fresh_target:
  "take (difficulty (new_Blockchain toy_crypto)) (hash ((next_attempt toy_crypto ^^ 2)
     (new_Block toy_crypto now (Arr (pendingTransactions (new_Blockchain toy_crypto))) [])))
   = replicate (difficulty (new_Blockchain toy_crypto)) CHR ''0''"
proof -
  have "replicate 2 CHR ''0'' = ''00''" by (simp add: numeral_2_eq_2)
  then show ?thesis by (simp add: new_Blockchain_def toy_attempts)
qed



lemma reaches_two_blocks: "reaches toy_crypto (chain (two_blocks b)) 1"
  by (simp add: reaches_def two_blocks_def)

lemma two_blocks_nth:
  "chain (two_blocks b) ! Suc 0 = b" "chain (two_blocks b) ! 0 = createGenesisBlock toy_crypto"
  by (simp_all add: two_blocks_def)

section \<open>The driver script up to the miner\<close>

lemma main_tx1_signed:
  "main_tx1 c myKey toAddr =
     (None, \<lparr>fromAddress = Some (getPublic c myKey), toAddress = toAddr, amount = Fin 10,
        signature = Some (sign c myKey
          (tx_calculateHash c (new_Transactions (Some (getPublic c myKey)) toAddr (Fin 10))))\<rparr>)"
  by (simp add: main_tx1_def signTransaction_def new_Transactions_def Let_def)

lemma main_tx1_fields:
  "fst (main_tx1 c myKey toAddr) = None"
  "fromAddress (snd (main_tx1 c myKey toAddr)) = Some (getPublic c myKey)"
  "toAddress (snd (main_tx1 c myKey toAddr)) = toAddr"
  "amount (snd (main_tx1 c myKey toAddr)) = Fin 10"
  by (simp_all add: main_tx1_signed)

lemma main_mined_unfold:
  "main_mined c myKey toAddr now =
     (case addTransaction c (snd (main_tx1 c myKey toAddr)) (new_Blockchain c) of
        (Some e, L1) \<Rightarrow> Some (Inl e)
      | (None, L1) \<Rightarrow>
          (case minePendingTransaction c now (getPublic c myKey) L1 of
             None \<Rightarrow> None
           | Some L2 \<Rightarrow> Some (Inr L2)))"
  by (simp add: main_mined_def Let_def main_tx1_signed)

lemma main_add:
  assumes "getPublic c myKey \<noteq> []" and "toAddr \<noteq> []"
    and "isValid c (snd (main_tx1 c myKey toAddr)) = Inr True"
  shows "addTransaction c (snd (main_tx1 c myKey toAddr)) (new_Blockchain c)
     = (None, (new_Blockchain c)\<lparr>pendingTransactions := [snd (main_tx1 c myKey toAddr)]\<rparr>)"
  using assms by (simp add: addTransaction_def falsy_def main_tx1_fields new_Blockchain_def)

lemma main_mined_returns:
  assumes "getPublic c myKey \<noteq> []" and "toAddr \<noteq> []"
    and "isValid c (snd (main_tx1 c myKey toAddr)) = Inr True"
    and "take 2 (hash ((next_attempt c ^^ n)
           (new_Block c now (Arr [snd (main_tx1 c myKey toAddr)]) []))) = ''00''"
  shows "\<exists>b. main_mined c myKey toAddr now
           = Some (Inr \<lparr>chain = [createGenesisBlock c, b], difficulty = 2,
                pendingTransactions = [new_Transactions None (getPublic c myKey) (Fin 100)],
                mimingReward = Fin 100\<rparr>)
          \<and> transactions b = Arr [snd (main_tx1 c myKey toAddr)]
          \<and> previousHash b = []"
proof -
  let ?L1 = "(new_Blockchain c)\<lparr>pendingTransactions := [snd (main_tx1 c myKey toAddr)]\<rparr>"
  have r: "replicate 2 CHR ''0'' = ''00''" by (simp add: numeral_2_eq_2)
  have "take (difficulty ?L1) (hash ((next_attempt c ^^ n)
      (new_Block c now (Arr (pendingTransactions ?L1)) []))) = replicate (difficulty ?L1) CHR ''0''"
    using assms(4) by (simp add: new_Blockchain_def r)
  from minePendingTransaction_returns [OF this, of "getPublic c myKey"] obtain b where
    m: "minePendingTransaction c now (getPublic c myKey) ?L1
       = Some (?L1\<lparr>chain := chain ?L1 @ [b],
            pendingTransactions := [new_Transactions None (getPublic c myKey) (mimingReward ?L1)]\<rparr>)"
    and b: "transactions b = Arr (pendingTransactions ?L1)" "previousHash b = []"
    by blast
  from m have "minePendingTransaction c now (getPublic c myKey) ?L1
       = Some \<lparr>chain = [createGenesisBlock c, b], difficulty = 2,
                pendingTransactions = [new_Transactions None (getPublic c myKey) (Fin 100)],
                mimingReward = Fin 100\<rparr>"
    by (simp add: new_Blockchain_def)
  with b show ?thesis
    by (intro exI [of _ b]) (simp add: main_mined_unfold main_add [OF assms(1-3)])
qed

lemma main_mined_Some:
  assumes "main_mined c myKey toAddr now = Some (Inr L)"
  shows "\<exists>b. L = \<lparr>chain = [createGenesisBlock c, b], difficulty = 2,
                pendingTransactions = [new_Transactions None (getPublic c myKey) (Fin 100)],
                mimingReward = Fin 100\<rparr>
          \<and> transactions b = Arr [snd (main_tx1 c myKey toAddr)]
          \<and> previousHash b = []
          \<and> hash b = toString (SHA256 c (stored_string b))
          \<and> take 2 (hash b) = ''00''
          \<and> (\<exists>m. b = (next_attempt c ^^ m)
                 (new_Block c now (Arr [snd (main_tx1 c myKey toAddr)]) []))"
    and "isValid c (snd (main_tx1 c myKey toAddr)) = Inr True"
    and "built c L"
proof -
  from assms obtain L1 where
    a: "addTransaction c (snd (main_tx1 c myKey toAddr)) (new_Blockchain c) = (None, L1)"
    and m: "minePendingTransaction c now (getPublic c myKey) L1 = Some L"
    by (auto simp: main_mined_unfold split: prod.splits option.splits)
  from addTransaction_accepts(1,2) [OF a] have
    L1: "L1 = (new_Blockchain c)\<lparr>pendingTransactions := [snd (main_tx1 c myKey toAddr)]\<rparr>"
    and v: "isValid c (snd (main_tx1 c myKey toAddr)) = Inr True"
    by (simp_all add: new_Blockchain_def)
  show "isValid c (snd (main_tx1 c myKey toAddr)) = Inr True" by (rule v)
  have r: "replicate 2 CHR ''0'' = ''00''" by (simp add: numeral_2_eq_2)
  from minePendingTransaction_Some [OF m] obtain b k where
    b: "L = L1\<lparr>chain := chain L1 @ [b],
           pendingTransactions := [new_Transactions None (getPublic c myKey) (mimingReward L1)]\<rparr>"
    "transactions b = Arr (pendingTransactions L1)" "previousHash b = []"
    and t: "take (difficulty L1) (hash b) = replicate (difficulty L1) CHR ''0''"
    and k: "b = (next_attempt c ^^ k) (new_Block c now (Arr (pendingTransactions L1)) [])"
    by (elim exE conjE) (rule that)
  have st: "hash b = toString (SHA256 c (stored_string b))"
    unfolding k by (rule attempts_stored)
  from t have t2: "take 2 (hash b) = ''00''"
    by (simp add: L1 new_Blockchain_def r)
  from k have "\<exists>m. b = (next_attempt c ^^ m)
      (new_Block c now (Arr [snd (main_tx1 c myKey toAddr)]) [])"
    by (auto simp: L1)
  with b st t2 show "\<exists>b. L = \<lparr>chain = [createGenesisBlock c, b], difficulty = 2,
                pendingTransactions = [new_Transactions None (getPublic c myKey) (Fin 100)],
                mimingReward = Fin 100\<rparr>
          \<and> transactions b = Arr [snd (main_tx1 c myKey toAddr)]
          \<and> previousHash b = []
          \<and> hash b = toString (SHA256 c (stored_string b))
          \<and> take 2 (hash b) = ''00''
          \<and> (\<exists>m. b = (next_attempt c ^^ m)
                 (new_Block c now (Arr [snd (main_tx1 c myKey toAddr)]) []))"
    by (intro exI [of _ b]) (simp add: L1 new_Blockchain_def)
  show "built c L"
    by (rule built.mine [OF built.add [OF built.fresh a] m])
qed

lemma balance_after_main:
  assumes "chain L = [createGenesisBlock c, b]" and "transactions b = Arr [tx]"
  shows "getAddressOfBalance L address = balance_step address (Fin 0) tx"
  using assms by (simp add: getAddressOfBalance_def balance_block_def createGenesisBlock_def new_Block_fields)

lemma main_mined_balances:
  assumes "getPublic c myKey \<noteq> []" and "toAddr \<noteq> []" and "toAddr \<noteq> getPublic c myKey"
    and "isValid c (snd (main_tx1 c myKey toAddr)) = Inr True"
    and "take 2 (hash ((next_attempt c ^^ n)
           (new_Block c now (Arr [snd (main_tx1 c myKey toAddr)]) []))) = ''00''"
  shows "\<exists>L. main_mined c myKey toAddr now = Some (Inr L)
          \<and> length (chain L) = 2
          \<and> getAddressOfBalance L (getPublic c myKey) = Fin (- 10)
          \<and> getAddressOfBalance L toAddr = Fin 10
          \<and> pendingTransactions L = [new_Transactions None (getPublic c myKey) (Fin 100)]"
proof -
  from main_mined_returns [OF assms(1,2,4,5)] obtain b where
    b: "main_mined c myKey toAddr now
           = Some (Inr \<lparr>chain = [createGenesisBlock c, b], difficulty = 2,
                pendingTransactions = [new_Transactions None (getPublic c myKey) (Fin 100)],
                mimingReward = Fin 100\<rparr>)"
      "transactions b = Arr [snd (main_tx1 c myKey toAddr)]"
    by blast
  let ?L = "\<lparr>chain = [createGenesisBlock c, b], difficulty = 2,
                pendingTransactions = [new_Transactions None (getPublic c myKey) (Fin 100)],
                mimingReward = Fin 100\<rparr>"
  have "getAddressOfBalance ?L address = balance_step address (Fin 0) (snd (main_tx1 c myKey toAddr))"
    for address
    by (rule balance_after_main [OF _ b(2)]) simp
  with assms(3) have "getAddressOfBalance ?L (getPublic c myKey) = Fin (- 10)"
    "getAddressOfBalance ?L toAddr = Fin 10"
    by (auto simp: balance_step_def main_tx1_fields js_sub_def)
  with b(1) show ?thesis by simp
qed

lemma toy_main_valid: "isValid toy_crypto (snd (main_tx1 toy_crypto ''aa'' toAddr)) = Inr True"
  by (simp add: main_tx1_signed isValid_def toy_fields tx_calculateHash_def new_Transactions_def)

lemma toy_main_balances:
  assumes "toAddr \<noteq> []" and "toAddr \<noteq> ''04aa''"
  shows "\<exists>L. main_mined toy_crypto ''aa'' toAddr now = Some (Inr L)
          \<and> length (chain L) = 2
          \<and> getAddressOfBalance L ''04aa'' = Fin (- 10)
          \<and> getAddressOfBalance L toAddr = Fin 10
          \<and> pendingTransactions L = [new_Transactions None ''04aa'' (Fin 100)]"
  using main_mined_balances [of toy_crypto "''aa''" toAddr 2 now] assms
  by (simp add: toy_fields toy_main_valid toy_attempts)

section \<open>Chains built through the two calls\<close>

lemma built_inv: "built c L \<Longrightarrow> built_inv c L"
proof (induction rule: built.induct)
  case fresh
  show ?case by (simp add: built_inv_def new_Blockchain_def)
next
  case (add L tx L')
  from addTransaction_accepts(1,2) [OF add.hyps(2)] add.IH show ?case
    by (auto simp: built_inv_def)
next
  case (mine L now a L')
  from minePendingTransaction_Some [OF mine.hyps(2)] obtain b where
    L': "L' = L\<lparr>chain := chain L @ [b],
                  pendingTransactions := [new_Transactions None a (mimingReward L)]\<rparr>"
    and b: "transactions b = Arr (pendingTransactions L)" "previousHash b = []"
    by blast
  from mine.IH have "\<forall>t \<in> set (pendingTransactions L). isValid c t = Inr True"
    by (auto simp: built_inv_def)
  then have "allValid c (pendingTransactions L) = Inr True"
    by (intro allValid_all) simp
  with b have "hasValidTransactions c b = Inr True"
    by (simp add: hasValidTransactions_def)
  with mine.IH b L' show ?case
    by (auto simp: built_inv_def isValid_reward)
qed

text \<open>
  C1. Every ledger built from a new \<^verbatim>\<open>Blockchain\<close> by calls of \<^verbatim>\<open>addTransaction\<close> that
  return and calls of \<^verbatim>\<open>minePendingTransaction\<close>, with at least one block mined, is
  reported invalid by \<^verbatim>\<open>isChainValid\<close>.
\<close>

theorem built_chain_invalid:
  assumes "built c L" and "1 < length (chain L)"
  shows "isChainValid c L = Inr False"
proof -
  from built_inv [OF assms(1)] obtain rest where
    rest: "chain L = createGenesisBlock c # rest"
      "\<forall>b \<in> set rest. previousHash b = [] \<and> hasValidTransactions c b = Inr True"
    by (auto simp: built_inv_def)
  with assms(2) obtain b rest' where "rest = b # rest'"
    by (cases rest) auto
  with rest have "chain L = createGenesisBlock c # b # rest'"
    "hasValidTransactions c b = Inr True" "previousHash b = []"
    by simp_all
  moreover have "hash (createGenesisBlock c) \<noteq> []"
    by (simp add: createGenesisBlock_def hash_new_Block_not_Nil)
  ultimately show ?thesis
    by (intro second_block_unlinked [of L "createGenesisBlock c" b rest']) simp_all
qed

theorem built_chain_invalid_witness:
  "(case main_mined toy_crypto ''aa'' ''04bb'' 5 of
      Some (Inr L) \<Rightarrow>
        built toy_crypto L \<and> 1 < length (chain L) \<and> isChainValid toy_crypto L = Inr False
    | _ \<Rightarrow> False)"
proof -
  from toy_main_balances [of "''04bb''" 5] obtain L where
    L: "main_mined toy_crypto ''aa'' ''04bb'' 5 = Some (Inr L)" "length (chain L) = 2"
    by auto
  from main_mined_Some(3) [OF L(1)] have b: "built toy_crypto L" .
  from L(2) have l: "1 < length (chain L)" by simp
  from built_chain_invalid [OF b l] b l L(1) show ?thesis by simp
qed

section \<open>The link of a mined block\<close>

text \<open>
  C2. The block that \<^verbatim>\<open>minePendingTransaction\<close> appends has the empty string as
  \<^verbatim>\<open>previousHash\<close>, not the hash of the block that was the latest one before the call.
\<close>

theorem mined_block_previousHash:
  assumes "getLatestBlock L = Some g" and "hash g \<noteq> []"
    and "take (difficulty L) (hash ((next_attempt c ^^ n)
             (new_Block c now (Arr (pendingTransactions L)) []))) = replicate (difficulty L) CHR ''0''"
  shows "\<exists>b L'. minePendingTransaction c now a L = Some L'
          \<and> getLatestBlock L' = Some b
          \<and> transactions b = Arr (pendingTransactions L)
          \<and> previousHash b = []
          \<and> previousHash b \<noteq> hash g"
proof -
  from minePendingTransaction_returns [OF assms(3), of a] obtain b where
    "minePendingTransaction c now a L
       = Some (L\<lparr>chain := chain L @ [b],
                 pendingTransactions := [new_Transactions None a (mimingReward L)]\<rparr>)"
    "transactions b = Arr (pendingTransactions L)" "previousHash b = []"
    by blast
  with assms(2) show ?thesis by (simp add: getLatestBlock_def)
qed

theorem mined_block_previousHash_witness:
  "getLatestBlock (new_Blockchain toy_crypto) = Some (createGenesisBlock toy_crypto)
   \<and> hash (createGenesisBlock toy_crypto) \<noteq> []
   \<and> (\<exists>b L'. minePendingTransaction toy_crypto 5 ''04aa'' (new_Blockchain toy_crypto) = Some L'
          \<and> getLatestBlock L' = Some b
          \<and> previousHash b = []
          \<and> previousHash b \<noteq> hash (createGenesisBlock toy_crypto))"
proof -
  have g: "getLatestBlock (new_Blockchain toy_crypto) = Some (createGenesisBlock toy_crypto)"
    by (simp add: getLatestBlock_def new_Blockchain_def)
  have h: "hash (createGenesisBlock toy_crypto) \<noteq> []"
    by (simp add: createGenesisBlock_def hash_new_Block_not_Nil)
  from mined_block_previousHash [OF g h toy_fresh_target, of 5 "''04aa''"] g h show ?thesis
    by blast
qed

section \<open>Tampering with an amount\<close>






lemma stringify_tx_same:
  assumes "JSON_number v = JSON_number (amount t)"
  shows "stringify_tx (t\<lparr>amount := v\<rparr>) = stringify_tx t"
  using assms by (simp add: stringify_tx_def)
































section \<open>Balances after the script\<close>

text \<open>
  C4 (as amended). After the script has added the one transaction of 10 from \<open>A\<close> (the
  public key of \<^verbatim>\<open>myKey\<close>) to a different address \<open>B\<close> and mined with \<open>A\<close> as the
  reward address, the chain has two blocks, the balance of \<open>B\<close> is 10 and the balance of
  \<open>A\<close> is \<open>-10\<close>: the reward of 100 is the one pending transaction and is in no block.
\<close>

theorem one_transaction_balances:
  assumes "getPublic c myKey \<noteq> []" and "toAddr \<noteq> []" and "toAddr \<noteq> getPublic c myKey"
    and "isValid c (snd (main_tx1 c myKey toAddr)) = Inr True"
    and "take 2 (hash ((next_attempt c ^^ n)
           (new_Block c now (Arr [snd (main_tx1 c myKey toAddr)]) []))) = ''00''"
  shows "\<exists>L. main_mined c myKey toAddr now = Some (Inr L)
          \<and> length (chain L) = 2
          \<and> getAddressOfBalance L (getPublic c myKey) = Fin (- 10)
          \<and> getAddressOfBalance L toAddr = Fin 10
          \<and> pendingTransactions L = [new_Transactions None (getPublic c myKey) (Fin 100)]"
  using assms by (rule main_mined_balances)

theorem one_transaction_balances_witness:
  "getPublic toy_crypto ''aa'' \<noteq> [] \<and> ''04bb'' \<noteq> getPublic toy_crypto ''aa''
   \<and> isValid toy_crypto (snd (main_tx1 toy_crypto ''aa'' ''04bb'')) = Inr True
   \<and> take 2 (hash ((next_attempt toy_crypto ^^ 2)
           (new_Block toy_crypto 5 (Arr [snd (main_tx1 toy_crypto ''aa'' ''04bb'')]) []))) = ''00''
   \<and> (\<exists>L. main_mined toy_crypto ''aa'' ''04bb'' 5 = Some (Inr L)
          \<and> length (chain L) = 2
          \<and> getAddressOfBalance L (getPublic toy_crypto ''aa'') = Fin (- 10)
          \<and> getAddressOfBalance L ''04bb'' = Fin 10
          \<and> pendingTransactions L = [new_Transactions None (getPublic toy_crypto ''aa'') (Fin 100)])"
proof -
  have h: "getPublic toy_crypto ''aa'' \<noteq> []" "''04bb'' \<noteq> []"
    "''04bb'' \<noteq> getPublic toy_crypto ''aa''"
    by (simp_all add: toy_fields)
  note v = toy_main_valid [of "''04bb''"]
  note t = toy_attempts(3) [of 5 "Arr [snd (main_tx1 toy_crypto ''aa'' ''04bb'')]" "[]"]
  from one_transaction_balances [OF h v t] h v t show ?thesis by blast
qed

theorem one_transaction_balance_counterexample:
  "(case main_mined toy_crypto ''aa'' ''04bb'' 5 of
      Some (Inr L) \<Rightarrow>
        length (chain L) = 2 \<and> getAddressOfBalance L ''04bb'' = Fin 10
        \<and> getAddressOfBalance L ''04aa'' = Fin (- 10) \<and> getAddressOfBalance L ''04aa'' \<noteq> Fin 90
    | _ \<Rightarrow> False)"
proof -
  from toy_main_balances [of "''04bb''" 5] obtain L where
    "main_mined toy_crypto ''aa'' ''04bb'' 5 = Some (Inr L)" "length (chain L) = 2"
    "getAddressOfBalance L ''04aa'' = Fin (- 10)" "getAddressOfBalance L ''04bb'' = Fin 10"
    by auto
  then show ?thesis by simp
qed

section \<open>Transactions without a sender\<close>

text \<open>
  C5 (as amended). A transaction whose sender is \<^verbatim>\<open>null\<close> is rejected by
  \<^verbatim>\<open>addTransaction\<close> with the missing-address error, whatever its recipient, and the
  pending pool is left as it was: the address guard comes before \<^verbatim>\<open>isValid\<close>.
\<close>

theorem addTransaction_null_sender:
  "fromAddress tx = None \<Longrightarrow> addTransaction c tx L = (Some MissingAddress, L)"
  by (simp add: addTransaction_def falsy_def)

theorem addTransaction_null_sender_witness:
  "fromAddress (new_Transactions None ''04bb'' (Fin 7)) = None
   \<and> addTransaction toy_crypto (new_Transactions None ''04bb'' (Fin 7)) (new_Blockchain toy_crypto)
       = (Some MissingAddress, new_Blockchain toy_crypto)"
proof -
  have h: "fromAddress (new_Transactions None ''04bb'' (Fin 7)) = None"
    by (simp add: new_Transactions_def)
  from addTransaction_null_sender [OF h] h show ?thesis by simp
qed

theorem addTransaction_null_sender_counterexample:
  "fromAddress (new_Transactions None ''04aa'' (Fin 100)) = None
   \<and> toAddress (new_Transactions None ''04aa'' (Fin 100)) \<noteq> []
   \<and> addTransaction toy_crypto (new_Transactions None ''04aa'' (Fin 100)) (new_Blockchain toy_crypto)
       = (Some MissingAddress, new_Blockchain toy_crypto)
   \<and> pendingTransactions (snd (addTransaction toy_crypto (new_Transactions None ''04aa'' (Fin 100))
         (new_Blockchain toy_crypto))) = []"
  by (simp add: addTransaction_def falsy_def new_Transactions_def new_Blockchain_def)

section \<open>Signing for another wallet\<close>

text \<open>
  C6. Signing with a key whose public key is not the sender address throws and leaves
  the transaction as it was, so an unsigned transaction stays unsigned; signing returns
  normally exactly when the public key is the sender address, and then stores the
  signature of the transaction's hash.
\<close>

theorem signTransaction_other_wallet:
  "(Some (getPublic c k) \<noteq> fromAddress tx \<longrightarrow>
      signTransaction c k tx = (Some OtherWallet, tx)
      \<and> (signature tx = None \<longrightarrow> signature (snd (signTransaction c k tx)) = None))
   \<and> (fst (signTransaction c k tx) = None \<longleftrightarrow> Some (getPublic c k) = fromAddress tx)
   \<and> (Some (getPublic c k) = fromAddress tx \<longrightarrow>
      signTransaction c k tx
        = (None, tx\<lparr>signature := Some (sign c k (tx_calculateHash c tx))\<rparr>))"
  by (simp add: signTransaction_def Let_def)

theorem signTransaction_other_wallet_witness:
  "signTransaction toy_crypto ''bb'' (new_Transactions (Some ''04aa'') ''04cc'' (Fin 10))
     = (Some OtherWallet, new_Transactions (Some ''04aa'') ''04cc'' (Fin 10))
   \<and> fst (signTransaction toy_crypto ''aa'' (new_Transactions (Some ''04aa'') ''04cc'' (Fin 10))) = None
   \<and> signature (snd (signTransaction toy_crypto ''aa'' (new_Transactions (Some ''04aa'') ''04cc'' (Fin 10))))
       = Some (sign toy_crypto ''aa''
           (tx_calculateHash toy_crypto (new_Transactions (Some ''04aa'') ''04cc'' (Fin 10))))"
  using signTransaction_other_wallet [of toy_crypto "''bb''" "new_Transactions (Some ''04aa'') ''04cc'' (Fin 10)"]
    signTransaction_other_wallet [of toy_crypto "''aa''" "new_Transactions (Some ''04aa'') ''04cc'' (Fin 10)"]
  by (simp add: toy_fields new_Transactions_def)

section \<open>Missing signatures during validation\<close>

text \<open>
  C7 (as amended). When the loop of \<^verbatim>\<open>isChainValid\<close> reaches a block and every transaction
  before \<open>t\<close> in it verifies: if \<open>t\<close> has a sender and no or an empty signature, both
  \<^verbatim>\<open>hasValidTransactions\<close> and \<^verbatim>\<open>isChainValid\<close> throw the missing-signature error; if
  \<open>t\<close> fails verification, both return false, whatever comes after \<open>t\<close>. A block whose
  transactions all verify and whose hash or link is wrong makes \<^verbatim>\<open>isChainValid\<close> return
  false.
\<close>

theorem missing_signature_thrown:
  assumes "reaches c (chain L) i"
  shows "(transactions (chain L ! i) = Arr (pre @ t # post)
            \<and> list_all (\<lambda>p. isValid c p = Inr True) pre
            \<and> fromAddress t \<noteq> None \<and> (signature t = None \<or> signature t = Some [])
          \<longrightarrow> hasValidTransactions c (chain L ! i) = Inl NoSignature
              \<and> isChainValid c L = Inl NoSignature)
       \<and> (transactions (chain L ! i) = Arr (pre @ t # post)
            \<and> list_all (\<lambda>p. isValid c p = Inr True) pre
            \<and> isValid c t = Inr False
          \<longrightarrow> hasValidTransactions c (chain L ! i) = Inr False
              \<and> isChainValid c L = Inr False)
       \<and> (hasValidTransactions c (chain L ! i) = Inr True
            \<and> hash (chain L ! i) \<noteq> calculateHash c (chain L ! i)
          \<longrightarrow> isChainValid c L = Inr False)
       \<and> (hasValidTransactions c (chain L ! i) = Inr True
            \<and> hash (chain L ! i) = calculateHash c (chain L ! i)
            \<and> previousHash (chain L ! i) \<noteq> hash (chain L ! (i - 1))
          \<longrightarrow> isChainValid c L = Inr False)"
proof -
  from assms have i: "i < length (chain L)" by (simp add: reaches_def)
  note loop = reaches_loop [OF assms] loop_unfold [OF i]
  have a: "hasValidTransactions c (chain L ! i) = Inl NoSignature"
    if "transactions (chain L ! i) = Arr (pre @ t # post)"
      "list_all (\<lambda>p. isValid c p = Inr True) pre"
      "fromAddress t \<noteq> None" "signature t = None \<or> signature t = Some []"
  proof -
    from that(3,4) have "isValid c t = Inl NoSignature"
      by (simp add: isValid_NoSignature)
    with that(1,2) show ?thesis
      by (simp add: hasValidTransactions_def allValid_first_error list_all_iff)
  qed
  have b: "hasValidTransactions c (chain L ! i) = Inr False"
    if "transactions (chain L ! i) = Arr (pre @ t # post)"
      "list_all (\<lambda>p. isValid c p = Inr True) pre" "isValid c t = Inr False"
    using that by (simp add: hasValidTransactions_def allValid_first_false list_all_iff)
  show ?thesis
    using a b by (auto simp: loop)
qed

lemma unsigned_tx_fields: "fromAddress unsigned_tx \<noteq> None" "signature unsigned_tx = None"
  by (simp_all add: unsigned_tx_def new_Transactions_def)

lemma toy_tx_hashes:
  "tx_calculateHash toy_crypto (new_Transactions (Some ''04aa'') ''04bb'' (Fin 10))
     \<noteq> tx_calculateHash toy_crypto tampered_tx"
proof -
  have "take 2 (tx_calculateHash toy_crypto (new_Transactions (Some ''04aa'') ''04bb'' (Fin 10))) = ''00''"
    unfolding tx_calculateHash_def toy_target
    by (simp add: hard_def new_Transactions_def js_address_def show_int_def
        show_nat.simps [of 10] show_nat_digit digit_char_def)
  moreover have "take 2 (tx_calculateHash toy_crypto tampered_tx) \<noteq> ''00''"
    unfolding tx_calculateHash_def toy_target
    by (simp add: hard_def tampered_tx_def main_tx1_signed js_address_def show_int_def
        show_nat_digit digit_char_def toy_fields)
  ultimately show ?thesis by metis
qed

lemma tampered_tx_fails: "isValid toy_crypto tampered_tx = Inr False"
  using toy_tx_hashes
  by (simp add: isValid_def tampered_tx_def main_tx1_signed toy_fields)

lemma toy_stale_hash:
  "hash (new_Block toy_crypto 5 (Arr []) []) \<noteq> calculateHash toy_crypto (new_Block toy_crypto 5 (Arr []) [])"
proof -
  have "take 2 (calculateHash toy_crypto (new_Block toy_crypto 5 (Arr []) [])) = ''00''"
    unfolding calculateHash_def toy_target
    by (simp add: hard_def preimage_def new_Block_fields show_nat_digit digit_char_def)
  with toy_attempts(1) [of 5 "Arr []" "[]"] show ?thesis by metis
qed

theorem missing_signature_thrown_witness:
  "reaches toy_crypto (chain (two_blocks (new_Block toy_crypto 5 (Arr [unsigned_tx]) []))) 1
   \<and> fromAddress unsigned_tx \<noteq> None \<and> signature unsigned_tx = None
   \<and> hasValidTransactions toy_crypto (new_Block toy_crypto 5 (Arr [unsigned_tx]) [])
       = Inl NoSignature
   \<and> isChainValid toy_crypto (two_blocks (new_Block toy_crypto 5 (Arr [unsigned_tx]) []))
       = Inl NoSignature
   \<and> isValid toy_crypto tampered_tx = Inr False
   \<and> hasValidTransactions toy_crypto (new_Block toy_crypto 5 (Arr [tampered_tx, unsigned_tx]) [])
       = Inr False
   \<and> isChainValid toy_crypto (two_blocks (new_Block toy_crypto 5 (Arr [tampered_tx, unsigned_tx]) []))
       = Inr False
   \<and> hasValidTransactions toy_crypto (new_Block toy_crypto 5 (Arr []) []) = Inr True
   \<and> hash (new_Block toy_crypto 5 (Arr []) [])
       \<noteq> calculateHash toy_crypto (new_Block toy_crypto 5 (Arr []) [])
   \<and> isChainValid toy_crypto (two_blocks (new_Block toy_crypto 5 (Arr []) [])) = Inr False
   \<and> hash (next_attempt toy_crypto (new_Block toy_crypto 5 (Arr []) []))
       = calculateHash toy_crypto (next_attempt toy_crypto (new_Block toy_crypto 5 (Arr []) []))
   \<and> previousHash (next_attempt toy_crypto (new_Block toy_crypto 5 (Arr []) []))
       \<noteq> hash (createGenesisBlock toy_crypto)
   \<and> isChainValid toy_crypto (two_blocks (next_attempt toy_crypto (new_Block toy_crypto 5 (Arr []) [])))
       = Inr False"
proof -
  let ?ba = "new_Block toy_crypto 5 (Arr [unsigned_tx]) []"
  let ?bb = "new_Block toy_crypto 5 (Arr [tampered_tx, unsigned_tx]) []"
  let ?bc = "new_Block toy_crypto 5 (Arr []) []"
  let ?bd = "next_attempt toy_crypto (new_Block toy_crypto 5 (Arr []) [])"
  have g: "hash (createGenesisBlock toy_crypto) \<noteq> []"
    by (simp add: createGenesisBlock_def hash_new_Block_not_Nil)
  have v: "hasValidTransactions toy_crypto ?bc = Inr True"
    "hasValidTransactions toy_crypto ?bd = Inr True"
    by (simp_all add: hasValidTransactions_def new_Block_fields next_attempt_fields)
  have d: "previousHash ?bd \<noteq> hash (createGenesisBlock toy_crypto)"
    using g by (simp add: next_attempt_fields new_Block_fields)
  from missing_signature_thrown [OF reaches_two_blocks [of ?ba], of "[]" unsigned_tx "[]"]
  have a: "hasValidTransactions toy_crypto ?ba = Inl NoSignature"
    "isChainValid toy_crypto (two_blocks ?ba) = Inl NoSignature"
    by (simp_all add: two_blocks_nth new_Block_fields unsigned_tx_fields)
  from missing_signature_thrown [OF reaches_two_blocks [of ?bb], of "[]" tampered_tx "[unsigned_tx]"]
  have b: "hasValidTransactions toy_crypto ?bb = Inr False"
    "isChainValid toy_crypto (two_blocks ?bb) = Inr False"
    by (simp_all add: two_blocks_nth new_Block_fields tampered_tx_fails)
  from missing_signature_thrown [OF reaches_two_blocks [of ?bc]]
  have c: "isChainValid toy_crypto (two_blocks ?bc) = Inr False"
    by (simp add: two_blocks_nth v toy_stale_hash)
  from missing_signature_thrown [OF reaches_two_blocks [of ?bd]]
  have e: "isChainValid toy_crypto (two_blocks ?bd) = Inr False"
    using d by (simp add: two_blocks_nth v next_attempt_hash_eq [symmetric])
  from a b c e d v reaches_two_blocks [of ?ba] show ?thesis
    by (simp add: unsigned_tx_fields tampered_tx_fails toy_stale_hash
        next_attempt_hash_eq [symmetric])
qed

theorem missing_signature_counterexample:
  "transactions (new_Block toy_crypto 5 (Arr [tampered_tx, unsigned_tx]) [])
     = Arr [tampered_tx, unsigned_tx]
   \<and> fromAddress unsigned_tx \<noteq> None \<and> signature unsigned_tx = None
   \<and> hasValidTransactions toy_crypto (new_Block toy_crypto 5 (Arr [tampered_tx, unsigned_tx]) [])
       = Inr False
   \<and> isChainValid toy_crypto (two_blocks (new_Block toy_crypto 5 (Arr [tampered_tx, unsigned_tx]) []))
       = Inr False"
proof -
  let ?b = "new_Block toy_crypto 5 (Arr [tampered_tx, unsigned_tx]) []"
  have h: "hasValidTransactions toy_crypto ?b = Inr False"
    by (simp add: hasValidTransactions_def new_Block_fields tampered_tx_fails)
  have "isChainValid toy_crypto (two_blocks ?b) = isChainValid_loop toy_crypto (chain (two_blocks ?b)) 1"
    by (rule reaches_loop [OF reaches_two_blocks])
  also have "\<dots> = Inr False"
    by (subst loop_unfold) (simp_all add: two_blocks_nth h, simp add: two_blocks_def)
  finally show ?thesis
    using h by (simp add: new_Block_fields unsigned_tx_fields)
qed

section \<open>The hash a new block stores\<close>

text \<open>
  C8. The constructor sets \<^verbatim>\<open>nonce\<close> to 0, but the hash it stores is the digest of the
  string that ends in \<^verbatim>\<open>undefined\<close>; the digest at nonce 0, which \<^verbatim>\<open>calculateHash\<close>
  returns for the finished block, is taken of a different string, so the stored hash is
  the digest at nonce 0 only if \<^verbatim>\<open>SHA256\<close> takes the same value on the two strings.
\<close>

theorem new_Block_hash_before_nonce:
  "nonce (new_Block c ts trs prev) = Num 0
   \<and> hash (new_Block c ts trs prev) = toString (SHA256 c (content ts trs prev @ ''undefined''))
   \<and> calculateHash c (new_Block c ts trs prev) = toString (SHA256 c (content ts trs prev @ ''0''))
   \<and> content ts trs prev @ ''undefined'' \<noteq> content ts trs prev @ ''0''
   \<and> (hash (new_Block c ts trs prev) = calculateHash c (new_Block c ts trs prev)
        \<longleftrightarrow> SHA256 c (content ts trs prev @ ''undefined'') = SHA256 c (content ts trs prev @ ''0''))"
proof -
  have h: "hash (new_Block c ts trs prev)
      = toString (SHA256 c (content ts trs prev @ ''undefined''))"
    by (rule hash_new_Block)
  have d: "calculateHash c (new_Block c ts trs prev)
      = toString (SHA256 c (content ts trs prev @ ''0''))"
    by (simp add: calculateHash_def preimage_def content_def new_Block_fields show_nat_digit
        digit_char_def)
  from h d show ?thesis
    by (auto simp: new_Block_fields dest: toString_inj)
qed

section \<open>The chain of one block\<close>

text \<open>
  C9. A freshly constructed ledger is valid, and so is every chain of one block, whatever
  that block holds: the loop starts at index 1 and never reads the block at index 0.
\<close>

theorem fresh_chain_valid:
  "isChainValid c (new_Blockchain c) = Inr True
   \<and> isChainValid c (L\<lparr>chain := [b]\<rparr>) = Inr True"
  by (simp add: isChainValid_def new_Blockchain_def isChainValid_loop.simps)

section \<open>Mining an empty pool\<close>



end
